theory Spec2Isabelle
  imports Complex_Main "HOL-Library.Multiset"
begin

section \<open>Text and character classes\<close>

text \<open>
  The functions verified here are \<^verbatim>\<open>extract_data_for_visualization\<close> and
  \<^verbatim>\<open>detect_visualization_request\<close> of \<^verbatim>\<open>knowledge/docling/5-chat.py\<close>.

  A Python \<^verbatim>\<open>str\<close> is modelled as a \<^typ>\<open>string\<close>, its characters read as the code
  points 0 to 255. On this range the classes \<^verbatim>\<open>\s\<close>, \<^verbatim>\<open>\d\<close> and \<^verbatim>\<open>\w\<close> of the
  \<^verbatim>\<open>re\<close> module (Unicode matching, the default for \<^verbatim>\<open>str\<close> patterns) and
  \<^verbatim>\<open>str.lower\<close> are given by the tables below: \<^verbatim>\<open>\s\<close> is \<^verbatim>\<open>str.isspace\<close>,
  \<^verbatim>\<open>\d\<close> the decimal digits, \<^verbatim>\<open>\w\<close> the alphanumeric characters and the underscore.
\<close>

definition spaces :: "string" where
  "spaces = [CHR 0x09, CHR 0x0A, CHR 0x0B, CHR 0x0C, CHR 0x0D, CHR 0x1C, CHR 0x1D, CHR 0x1E,
     CHR 0x1F, CHR 0x20, CHR 0x85, CHR 0xA0]"

definition digits :: "string" where
  "digits = ''0123456789''"

definition ascii_upper :: "string" where
  "ascii_upper = ''ABCDEFGHIJKLMNOPQRSTUVWXYZ''"

definition ascii_lower :: "string" where
  "ascii_lower = ''abcdefghijklmnopqrstuvwxyz''"

text \<open>The capital letters U+00C0 to U+00DE (without the sign U+00D7) and their small
  letters U+00E0 to U+00FE (without U+00F7), in the same order.\<close>

definition latin1_upper :: "string" where
  "latin1_upper = [CHR 0xC0, CHR 0xC1, CHR 0xC2, CHR 0xC3, CHR 0xC4, CHR 0xC5, CHR 0xC6, CHR 0xC7,
     CHR 0xC8, CHR 0xC9, CHR 0xCA, CHR 0xCB, CHR 0xCC, CHR 0xCD, CHR 0xCE, CHR 0xCF,
     CHR 0xD0, CHR 0xD1, CHR 0xD2, CHR 0xD3, CHR 0xD4, CHR 0xD5, CHR 0xD6, CHR 0xD8,
     CHR 0xD9, CHR 0xDA, CHR 0xDB, CHR 0xDC, CHR 0xDD, CHR 0xDE]"

definition latin1_lower :: "string" where
  "latin1_lower = [CHR 0xE0, CHR 0xE1, CHR 0xE2, CHR 0xE3, CHR 0xE4, CHR 0xE5, CHR 0xE6, CHR 0xE7,
     CHR 0xE8, CHR 0xE9, CHR 0xEA, CHR 0xEB, CHR 0xEC, CHR 0xED, CHR 0xEE, CHR 0xEF,
     CHR 0xF0, CHR 0xF1, CHR 0xF2, CHR 0xF3, CHR 0xF4, CHR 0xF5, CHR 0xF6, CHR 0xF8,
     CHR 0xF9, CHR 0xFA, CHR 0xFB, CHR 0xFC, CHR 0xFD, CHR 0xFE]"

text \<open>The other alphanumeric characters below U+0100: feminine and masculine ordinal,
  superscript digits, micro sign, vulgar fractions, sharp s and y with diaeresis.\<close>

definition latin1_other :: "string" where
  "latin1_other = [CHR 0xAA, CHR 0xB2, CHR 0xB3, CHR 0xB5, CHR 0xB9, CHR 0xBA, CHR 0xBC, CHR 0xBD,
     CHR 0xBE, CHR 0xDF, CHR 0xFF]"

definition is_space :: "char \<Rightarrow> bool" where
  "is_space c = (c \<in> set spaces)"

definition is_digit :: "char \<Rightarrow> bool" where
  "is_digit c = (c \<in> set digits)"

definition is_word :: "char \<Rightarrow> bool" where
  "is_word c = (c \<in> set (digits @ ascii_upper @ ascii_lower @ ''_'' @ latin1_upper @ latin1_lower
     @ latin1_other))"

definition lower_char :: "char \<Rightarrow> char" where
  "lower_char c =
     (case map_of (zip (ascii_upper @ latin1_upper) (ascii_lower @ latin1_lower)) c of
        Some l \<Rightarrow> l
      | None \<Rightarrow> c)"

definition lower :: "string \<Rightarrow> string" where
  "lower s = map lower_char s"

text \<open>\<^verbatim>\<open>s.strip()\<close>: white space removed at both ends.\<close>

definition strip :: "string \<Rightarrow> string" where
  "strip s = rev (dropWhile is_space (rev (dropWhile is_space s)))"

text \<open>\<^verbatim>\<open>sub in s\<close> on strings: \<open>sub\<close> occurs in \<open>s\<close> as a contiguous block.\<close>

fun starts_with :: "string \<Rightarrow> string \<Rightarrow> bool" where
  "starts_with [] s = True"
| "starts_with (p # ps) [] = False"
| "starts_with (p # ps) (x # xs) = (p = x \<and> starts_with ps xs)"

fun contains :: "string \<Rightarrow> string \<Rightarrow> bool" where
  "contains sub [] = (sub = [])"
| "contains sub (x # xs) = (starts_with sub (x # xs) \<or> contains sub xs)"

section \<open>Regular expressions of the source\<close>

text \<open>
  Every pattern of the source is a sequence of quantified character classes, some of them
  inside capture group 1 or 2. A class is a bracket expression: a list of members,
  possibly negated. The quantifiers that occur are none, \<^verbatim>\<open>?\<close>, \<^verbatim>\<open>*\<close>, \<^verbatim>\<open>+\<close> (greedy)
  and \<^verbatim>\<open>+?\<close> (lazy); \<open>LazyStar\<close> is what remains of \<^verbatim>\<open>+?\<close> after its first character.
\<close>

datatype member = C char | S | D | W

datatype cls = Pos "member list" | Neg "member list"

datatype quant = One | Opt | Star | Plus | LazyPlus | LazyStar

type_synonym item = "nat \<times> cls \<times> quant"

fun member_match :: "member \<Rightarrow> char \<Rightarrow> bool" where
  "member_match (C c) x = (x = c)"
| "member_match S x = is_space x"
| "member_match D x = is_digit x"
| "member_match W x = is_word x"

fun cls_match :: "cls \<Rightarrow> char \<Rightarrow> bool" where
  "cls_match (Pos ms) x = list_ex (\<lambda>m. member_match m x) ms"
| "cls_match (Neg ms) x = (\<not> list_ex (\<lambda>m. member_match m x) ms)"

text \<open>
  \<open>match_here its s\<close> is the backtracking matcher of \<^verbatim>\<open>re\<close> anchored at the start of
  \<open>s\<close>: the first match in the engine's order of preference (a greedy quantifier tries
  the longest repetition first, a lazy one the shortest). The result gives the text
  consumed by each item, in order, and the rest of the string.
\<close>

fun push :: "char \<Rightarrow> string list \<times> string \<Rightarrow> string list \<times> string" where
  "push x ([], r) = ([[x]], r)"
| "push x (p # ps, r) = ((x # p) # ps, r)"

fun skip :: "string list \<times> string \<Rightarrow> string list \<times> string" where
  "skip (ps, r) = ([] # ps, r)"

fun single :: "char \<Rightarrow> string list \<times> string \<Rightarrow> string list \<times> string" where
  "single x (ps, r) = ([x] # ps, r)"

fun match_here :: "item list \<Rightarrow> string \<Rightarrow> (string list \<times> string) option" where
  "match_here [] s = Some ([], s)"
| "match_here ((g, c, One) # its) [] = None"
| "match_here ((g, c, One) # its) (x # xs) =
     (if cls_match c x then map_option (single x) (match_here its xs) else None)"
| "match_here ((g, c, Opt) # its) [] = map_option skip (match_here its [])"
| "match_here ((g, c, Opt) # its) (x # xs) =
     (if cls_match c x
      then (case match_here its xs of
              Some m \<Rightarrow> Some (single x m)
            | None \<Rightarrow> map_option skip (match_here its (x # xs)))
      else map_option skip (match_here its (x # xs)))"
| "match_here ((g, c, Star) # its) [] = map_option skip (match_here its [])"
| "match_here ((g, c, Star) # its) (x # xs) =
     (if cls_match c x
      then (case match_here ((g, c, Star) # its) xs of
              Some m \<Rightarrow> Some (push x m)
            | None \<Rightarrow> map_option skip (match_here its (x # xs)))
      else map_option skip (match_here its (x # xs)))"
| "match_here ((g, c, Plus) # its) [] = None"
| "match_here ((g, c, Plus) # its) (x # xs) =
     (if cls_match c x then map_option (push x) (match_here ((g, c, Star) # its) xs) else None)"
| "match_here ((g, c, LazyPlus) # its) [] = None"
| "match_here ((g, c, LazyPlus) # its) (x # xs) =
     (if cls_match c x then map_option (push x) (match_here ((g, c, LazyStar) # its) xs) else None)"
| "match_here ((g, c, LazyStar) # its) [] = map_option skip (match_here its [])"
| "match_here ((g, c, LazyStar) # its) (x # xs) =
     (case match_here its (x # xs) of
        Some m \<Rightarrow> Some (skip m)
      | None \<Rightarrow> if cls_match c x
                then map_option (push x) (match_here ((g, c, LazyStar) # its) xs)
                else None)"

text \<open>The text captured by group \<open>k\<close>: what the items of that group consumed.\<close>

fun capture :: "nat \<Rightarrow> item list \<Rightarrow> string list \<Rightarrow> string" where
  "capture k ((g, c, q) # its) (p # ps) =
     (if g = k then p @ capture k its ps else capture k its ps)"
| "capture k _ _ = []"

text \<open>
  \<^verbatim>\<open>re.findall\<close> for a pattern with two groups: scan from the left, at each position
  try to match; after a match, go on where it ended; else move one character on.
  No pattern of the source matches the empty string, so the branch for an empty match
  (record it and move one character on) is never taken by them.
\<close>

function findall :: "item list \<Rightarrow> string \<Rightarrow> (string \<times> string) list" where
  "findall its s =
     (case match_here its s of
        Some (ps, r) \<Rightarrow>
          (if length r < length s then (capture 1 its ps, capture 2 its ps) # findall its r
           else (capture 1 its ps, capture 2 its ps) # (case s of [] \<Rightarrow> [] | x # xs \<Rightarrow> findall its xs))
      | None \<Rightarrow> (case s of [] \<Rightarrow> [] | x # xs \<Rightarrow> findall its xs))"
  by pat_completeness auto
termination
  by (relation "measure (\<lambda>(its, s). length s)") auto

declare findall.simps [simp del]

text \<open>A literal piece of a pattern and the usual shorthands.\<close>

definition lit :: "string \<Rightarrow> item list" where
  "lit s = map (\<lambda>c. (0, Pos [C c], One)) s"

definition ws0 :: "item list" where
  "ws0 = [(0, Pos [S], Star)]"

text \<open>\<^verbatim>\<open>([\d,]+\.?\d*)\<close>, the second group of every pattern.\<close>

definition number2 :: "item list" where
  "number2 = [(2, Pos [D, C CHR '',''], Plus), (2, Pos [C CHR ''.''], Opt), (2, Pos [D], Star)]"

text \<open>\<^verbatim>\<open>([^:]+?)\<close>, the first group of the real estate patterns.\<close>

definition label1 :: "item list" where
  "label1 = [(1, Neg [C CHR '':''], LazyPlus)]"

text \<open>The fifteen patterns, in the order of the list in the source.\<close>

text \<open>\<^verbatim>\<open>([^:=\n]+)[:=]\s*([\d,]+\.?\d*)\<close>\<close>

definition pattern_1 :: "item list" where
  "pattern_1 =
     [(1, Neg [C CHR '':'', C CHR ''='', C CHR 0x0A], Plus), (0, Pos [C CHR '':'', C CHR ''=''], One)] @ ws0 @ number2"

text \<open>\<^verbatim>\<open>([^=\n]+)=\s*([\d,]+\.?\d*)\<close>\<close>

definition pattern_2 :: "item list" where
  "pattern_2 =
     [(1, Neg [C CHR ''='', C CHR 0x0A], Plus)] @ lit ''='' @ ws0 @ number2"

text \<open>\<^verbatim>\<open>([^,\n]+),\s*([\d,]+\.?\d*)\<close>\<close>

definition pattern_3 :: "item list" where
  "pattern_3 =
     [(1, Neg [C CHR '','', C CHR 0x0A], Plus)] @ lit '','' @ ws0 @ number2"

text \<open>\<^verbatim>\<open>([^:]+?)\s*Credit\s*directed:\s*KD\s*([\d,]+\.?\d*)\s*billion\<close>\<close>

definition pattern_4 :: "item list" where
  "pattern_4 =
     label1 @ ws0 @ lit ''Credit'' @ ws0 @ lit ''directed:'' @ ws0 @ lit ''KD'' @ ws0 @ number2 @ ws0 @ lit ''billion''"

text \<open>\<^verbatim>\<open>([^:]+?)\s*Credit\s*directed:\s*([\d,]+\.?\d*)\<close>\<close>

definition pattern_5 :: "item list" where
  "pattern_5 =
     label1 @ ws0 @ lit ''Credit'' @ ws0 @ lit ''directed:'' @ ws0 @ number2"

text \<open>\<^verbatim>\<open>([^:]+?)\s*Share:\s*([\d,]+\.?\d*)%\<close>\<close>

definition pattern_6 :: "item list" where
  "pattern_6 =
     label1 @ ws0 @ lit ''Share:'' @ ws0 @ number2 @ lit ''%''"

text \<open>\<^verbatim>\<open>([^:]+?)\s*Total:\s*KD\s*([\d,]+\.?\d*)\s*billion\<close>\<close>

definition pattern_7 :: "item list" where
  "pattern_7 =
     label1 @ ws0 @ lit ''Total:'' @ ws0 @ lit ''KD'' @ ws0 @ number2 @ ws0 @ lit ''billion''"

text \<open>\<^verbatim>\<open>([^:]+?)\s*Total:\s*([\d,]+\.?\d*)\s*billion\<close>\<close>

definition pattern_8 :: "item list" where
  "pattern_8 =
     label1 @ ws0 @ lit ''Total:'' @ ws0 @ number2 @ ws0 @ lit ''billion''"

text \<open>\<^verbatim>\<open>([^:]+?)\s*KD\s*([\d,]+\.?\d*)\s*billion\<close>\<close>

definition pattern_9 :: "item list" where
  "pattern_9 =
     label1 @ ws0 @ lit ''KD'' @ ws0 @ number2 @ ws0 @ lit ''billion''"

text \<open>\<^verbatim>\<open>([^:]+?)\s*([\d,]+\.?\d*)\s*billion\<close>\<close>

definition pattern_10 :: "item list" where
  "pattern_10 =
     label1 @ ws0 @ number2 @ ws0 @ lit ''billion''"

text \<open>\<^verbatim>\<open>([^:]+?)\s*([\d,]+\.?\d*)\s*million\<close>\<close>

definition pattern_11 :: "item list" where
  "pattern_11 =
     label1 @ ws0 @ number2 @ ws0 @ lit ''million''"

text \<open>\<^verbatim>\<open>([^:]+?)\s*([\d,]+\.?\d*)\s*thousand\<close>\<close>

definition pattern_12 :: "item list" where
  "pattern_12 =
     label1 @ ws0 @ number2 @ ws0 @ lit ''thousand''"

text \<open>\<^verbatim>\<open>([^:]+?)\s*([\d,]+\.?\d*)%\<close>\<close>

definition pattern_13 :: "item list" where
  "pattern_13 =
     label1 @ ws0 @ number2 @ lit ''%''"

text \<open>\<^verbatim>\<open>([^:]+?)\s*([\d,]+\.?\d*)\s*units\<close>\<close>

definition pattern_14 :: "item list" where
  "pattern_14 =
     label1 @ ws0 @ number2 @ ws0 @ lit ''units''"

text \<open>\<^verbatim>\<open>([^:]+?)\s*([\d,]+\.?\d*)\s*properties\<close>\<close>

definition pattern_15 :: "item list" where
  "pattern_15 =
     label1 @ ws0 @ number2 @ ws0 @ lit ''properties''"

definition patterns :: "item list list" where
  "patterns = [pattern_1, pattern_2, pattern_3, pattern_4, pattern_5,
     pattern_6, pattern_7, pattern_8, pattern_9, pattern_10,
     pattern_11, pattern_12, pattern_13, pattern_14, pattern_15]"

text \<open>\<^verbatim>\<open>(\d+\.?\d*)\<close>, the number pattern of the fallback.\<close>

definition number_pattern :: "item list" where
  "number_pattern = [(1, Pos [D], Plus), (1, Pos [C CHR ''.''], Opt), (1, Pos [D], Star)]"

section \<open>Numbers\<close>

text \<open>
  A Python \<^verbatim>\<open>float\<close> is modelled by the rational number that the decimal numeral
  denotes; rounding to binary64 is not modelled. \<open>float_py\<close> is \<^verbatim>\<open>float(s)\<close> on the
  strings that the call sites pass, which consist of digits and full stops: digits with
  at most one full stop and at least one digit give the number, anything else raises
  \<^verbatim>\<open>ValueError\<close>.
\<close>

datatype error = ValueError | IndexError

definition digit_val :: "char \<Rightarrow> nat" where
  "digit_val c = length (takeWhile (\<lambda>d. d \<noteq> c) digits)"

definition nat_of_digits :: "string \<Rightarrow> nat" where
  "nat_of_digits s = foldl (\<lambda>n c. 10 * n + digit_val c) 0 s"

definition float_py :: "string \<Rightarrow> error + rat" where
  "float_py s =
     (let ip = takeWhile is_digit s in
      case dropWhile is_digit s of
        [] \<Rightarrow> if ip = [] then Inl ValueError else Inr (of_nat (nat_of_digits ip))
      | c # fp \<Rightarrow>
          if c = CHR ''.'' \<and> list_all is_digit fp \<and> (ip \<noteq> [] \<or> fp \<noteq> [])
          then Inr (of_nat (nat_of_digits ip) + of_nat (nat_of_digits fp) / 10 ^ length fp)
          else Inl ValueError)"

text \<open>
  \<^verbatim>\<open>f"{value:,.2f}"\<close> for a value that is not negative (the source formats positive
  values only): two decimals, rounded half to even, and the integer part in groups of
  three digits.
\<close>

definition round_half_even :: "rat \<Rightarrow> nat" where
  "round_half_even v =
     (let n = nat \<lfloor>v\<rfloor>; r = v - of_nat n in
      if r < 1 / 2 then n else if 1 / 2 < r then n + 1 else if even n then n else n + 1)"

definition digit_char :: "nat \<Rightarrow> char" where
  "digit_char n = digits ! n"

fun decimal :: "nat \<Rightarrow> string" where
  "decimal n = (if n < 10 then [digit_char n] else decimal (n div 10) @ [digit_char (n mod 10)])"

function thousands :: "string \<Rightarrow> string" where
  "thousands s =
     (if length s \<le> 3 then s
      else thousands (take (length s - 3) s) @ '','' @ drop (length s - 3) s)"
  by pat_completeness auto
termination
  by (relation "measure length") auto

definition fmt_2f :: "rat \<Rightarrow> string" where
  "fmt_2f v =
     (let n = round_half_even (v * 100) in
      thousands (decimal (n div 100)) @ ''.'' @ [digit_char (n mod 100 div 10), digit_char (n mod 10)])"

section \<open>The extraction\<close>

record data =
  categories :: "string list"
  values' :: "rat list"
  labels :: "string list"
  chart_type :: string
  title :: string

definition data0 :: data where
  "data0 = \<lparr>categories = [], values' = [], labels = [], chart_type = ''bar'',
     title = ''Real Estate Data Visualization''\<rparr>"

text \<open>A \<^verbatim>\<open>for\<close> loop over a list whose body may raise: the first error ends the loop.\<close>

fun for_each :: "('a \<Rightarrow> 's \<Rightarrow> error + 's) \<Rightarrow> 'a list \<Rightarrow> 's \<Rightarrow> error + 's" where
  "for_each body [] s = Inr s"
| "for_each body (x # xs) s =
     (case body x s of Inl e \<Rightarrow> Inl e | Inr s' \<Rightarrow> for_each body xs s')"

text \<open>\<^verbatim>\<open>except ValueError: continue\<close>: the loop goes on with the data as they were when the
  body raised; the body raises before it changes anything.\<close>

definition except_ValueError :: "data \<Rightarrow> error + data \<Rightarrow> error + data" where
  "except_ValueError d r =
     (case r of Inl ValueError \<Rightarrow> Inr d | Inl e \<Rightarrow> Inl e | Inr d' \<Rightarrow> Inr d')"

text \<open>\<^verbatim>\<open>re.sub(r'\s+', ' ', category)\<close>: every run of white space becomes one space.\<close>

function collapse_ws :: "string \<Rightarrow> string" where
  "collapse_ws [] = []"
| "collapse_ws (x # xs) =
     (if is_space x then CHR '' '' # collapse_ws (dropWhile is_space xs) else x # collapse_ws xs)"
  by pat_completeness auto
termination
  by (relation "measure length") (auto simp: length_dropWhile_le less_Suc_eq_le)

text \<open>\<^verbatim>\<open>re.sub(r'[^\w\s\-&]', '', category)\<close>: the characters of the class are removed.\<close>

definition remove_special :: "string \<Rightarrow> string" where
  "remove_special s = filter (\<lambda>x. \<not> cls_match (Neg [W, S, C CHR ''-'', C CHR ''&'']) x) s"

definition skip_words :: "string list" where
  "skip_words = [''source:'', ''page'', ''file'', ''pdf'', ''report'', ''title'']"

text \<open>The body of the \<^verbatim>\<open>try\<close> in the loop over the matches of a pattern.\<close>

definition try_match :: "data \<Rightarrow> string \<times> string \<Rightarrow> error + data" where
  "try_match d m =
     (let category = strip (fst m);
          value_str = filter (\<lambda>c. c \<noteq> CHR '','') (snd m)
      in case float_py value_str of
           Inl e \<Rightarrow> Inl e
         | Inr v \<Rightarrow>
             if category \<noteq> [] \<and> 0 < v then
               (let category = remove_special (strip (collapse_ws category)) in
                if 3 < length category
                   \<and> \<not> list_ex (\<lambda>skip. contains skip (lower category)) skip_words
                then
                  if category \<notin> set (categories d)
                  then Inr (d\<lparr>categories := categories d @ [category],
                              values' := values' d @ [v],
                              labels := labels d @ [category @ '': '' @ fmt_2f v]\<rparr>)
                  else Inr d
                else Inr d)
             else Inr d)"

definition apply_pattern :: "string \<Rightarrow> item list \<Rightarrow> data \<Rightarrow> error + data" where
  "apply_pattern text pattern d =
     for_each (\<lambda>m d. except_ValueError d (try_match d m)) (findall pattern text) d"

definition apply_patterns :: "string \<Rightarrow> data \<Rightarrow> error + data" where
  "apply_patterns text d = for_each (apply_pattern text) patterns d"

text \<open>The fallback on the real estate terms. \<^verbatim>\<open>str.title\<close> is applied to these words
  only: the first letter of every word becomes a capital, the other letters small.\<close>

definition real_estate_keywords :: "string list" where
  "real_estate_keywords =
     [''real estate'', ''construction'', ''housing'', ''credit'', ''facilities'',
      ''instalment'', ''private'', ''model'', ''total'', ''residential'', ''commercial'',
      ''investment'', ''development'', ''market'', ''price'', ''value'']"

definition upper_char :: "char \<Rightarrow> char" where
  "upper_char c = (case map_of (zip ascii_lower ascii_upper) c of Some u \<Rightarrow> u | None \<Rightarrow> c)"

definition is_cased :: "char \<Rightarrow> bool" where
  "is_cased c = (c \<in> set (ascii_upper @ ascii_lower))"

fun title_from :: "bool \<Rightarrow> string \<Rightarrow> string" where
  "title_from prev [] = []"
| "title_from prev (x # xs) =
     (if prev then lower_char x else upper_char x) # title_from (is_cased x) xs"

definition str_title :: "string \<Rightarrow> string" where
  "str_title s = title_from False s"

text \<open>\<^verbatim>\<open>numbers[0]\<close> raises \<^verbatim>\<open>IndexError\<close> on an empty list.\<close>

definition first :: "'a list \<Rightarrow> error + 'a" where
  "first xs = (case xs of [] \<Rightarrow> Inl IndexError | x # _ \<Rightarrow> Inr x)"

definition fallback_keyword :: "string \<Rightarrow> string \<Rightarrow> data \<Rightarrow> error + data" where
  "fallback_keyword text keyword d =
     (if contains keyword (lower text) then
        (let numbers = map fst (findall number_pattern text) in
         if numbers \<noteq> [] then
           except_ValueError d
             (case first numbers of
                Inl e \<Rightarrow> Inl e
              | Inr n \<Rightarrow>
                  (case float_py n of
                     Inl e \<Rightarrow> Inl e
                   | Inr v \<Rightarrow>
                       if 0 < v
                       then Inr (d\<lparr>categories := categories d @ [str_title keyword],
                                   values' := values' d @ [v],
                                   labels := labels d @ [str_title keyword @ '': '' @ fmt_2f v]\<rparr>)
                       else Inr d))
         else Inr d)
      else Inr d)"

definition fallback :: "string \<Rightarrow> data \<Rightarrow> error + data" where
  "fallback text d =
     (if values' d = [] then for_each (fallback_keyword text) real_estate_keywords d else Inr d)"

text \<open>
  The last step. \<^verbatim>\<open>sorted(..., key=lambda x: x[1], reverse=True)\<close> is a stable sort by
  falling value: pairs of equal value keep their order. That is the stable sort by
  rising negated value. The list \<open>labels\<close> is not touched here.
\<close>

definition finalize :: "data \<Rightarrow> data" where
  "finalize d =
     (if values' d \<noteq> [] then
        (let sorted_data = sort_key (\<lambda>x. - snd x) (zip (categories d) (values' d));
             d1 = d\<lparr>categories := map fst sorted_data, values' := map snd sorted_data\<rparr>
         in if 10 < length (categories d1)
            then d1\<lparr>categories := take 10 (categories d1), values' := take 10 (values' d1)\<rparr>
            else d1)
      else d)"

text \<open>The data collected by the patterns and the fallback, before the last step.\<close>

definition collect :: "string \<Rightarrow> error + data" where
  "collect text =
     (case apply_patterns text data0 of Inl e \<Rightarrow> Inl e | Inr d \<Rightarrow> fallback text d)"

definition extract_data_for_visualization :: "string \<Rightarrow> error + data" where
  "extract_data_for_visualization text =
     (case collect text of Inl e \<Rightarrow> Inl e | Inr d \<Rightarrow> Inr (finalize d))"

section \<open>The request for a chart\<close>

definition explicit_visualization_keywords :: "string list" where
  "explicit_visualization_keywords =
     [''create chart'', ''make chart'', ''show chart'', ''display chart'',
      ''create graph'', ''make graph'', ''show graph'', ''display graph'',
      ''create plot'', ''make plot'', ''show plot'', ''display plot'',
      ''draw chart'', ''draw graph'', ''draw plot'',
      ''visualize'', ''visualise'', ''visualization'', ''visualisation'',
      ''chart of'', ''graph of'', ''plot of'',
      ''bar chart'', ''pie chart'', ''line chart'', ''scatter plot'',
      ''heatmap'', ''histogram'']"

definition text_only_keywords :: "string list" where
  "text_only_keywords =
     [''what is'', ''what are'', ''how much'', ''how many'', ''when'', ''where'', ''why'',
      ''summarize'', ''summary'', ''explain'', ''describe'', ''tell me about'',
      ''average'', ''total'', ''price'', ''rent'', ''cost'', ''value'', ''trends'',
      ''analysis'', ''overview'', ''insights'', ''details'', ''information'']"

definition detect_visualization_request :: "string \<Rightarrow> bool" where
  "detect_visualization_request user_input =
     (let user_input_lower = lower user_input;
          has_visualization_keyword =
            list_ex (\<lambda>keyword. contains keyword user_input_lower) explicit_visualization_keywords;
          has_text_only_keywords =
            list_ex (\<lambda>keyword. contains keyword user_input_lower) text_only_keywords
      in has_visualization_keyword \<and> \<not> has_text_only_keywords)"

section \<open>Notions used in the statements\<close>

text \<open>What a match contributes when it passes every test of the loop body: its cleaned
  label and its value.\<close>

definition candidate :: "string \<times> string \<Rightarrow> (string \<times> rat) option" where
  "candidate m =
     (case float_py (filter (\<lambda>c. c \<noteq> CHR '','') (snd m)) of
        Inl e \<Rightarrow> None
      | Inr v \<Rightarrow>
          if strip (fst m) \<noteq> [] \<and> 0 < v then
            (let category = remove_special (strip (collapse_ws (strip (fst m)))) in
             if 3 < length category \<and> \<not> list_ex (\<lambda>skip. contains skip (lower category)) skip_words
             then Some (category, v) else None)
          else None)"

text \<open>All of them, pattern after pattern, match after match.\<close>

definition candidates :: "string \<Rightarrow> (string \<times> rat) list" where
  "candidates text = List.map_filter candidate (concat (map (\<lambda>p. findall p text) patterns))"

text \<open>Adding a data point at the end of the three lists, and adding it unless its label is
  there already.\<close>

definition append_point :: "data \<Rightarrow> string \<times> rat \<Rightarrow> data" where
  "append_point d p =
     d\<lparr>categories := categories d @ [fst p], values' := values' d @ [snd p],
       labels := labels d @ [fst p @ '': '' @ fmt_2f (snd p)]\<rparr>"

definition accept :: "data \<Rightarrow> string \<times> rat \<Rightarrow> data" where
  "accept d p = (if fst p \<in> set (categories d) then d else append_point d p)"

text \<open>The pairs that survive when a pair whose label was seen before is dropped.\<close>

fun firsts :: "string list \<Rightarrow> (string \<times> rat) list \<Rightarrow> (string \<times> rat) list" where
  "firsts seen [] = []"
| "firsts seen (p # ps) =
     (if fst p \<in> set seen then firsts seen ps else p # firsts (seen @ [fst p]) ps)"

text \<open>The number the fallback uses, if it finds one, and the data points it makes.\<close>

definition fallback_value :: "string \<Rightarrow> rat option" where
  "fallback_value text =
     (case map fst (findall number_pattern text) of
        [] \<Rightarrow> None
      | n # _ \<Rightarrow> (case float_py n of Inl e \<Rightarrow> None | Inr v \<Rightarrow> if 0 < v then Some v else None))"

definition fallback_points :: "string \<Rightarrow> (string \<times> rat) list" where
  "fallback_points text =
     (case fallback_value text of
        None \<Rightarrow> []
      | Some v \<Rightarrow> map (\<lambda>k. (str_title k, v))
                   (filter (\<lambda>k. contains k (lower text)) real_estate_keywords))"

text \<open>The data points collected from a text, the display string of a data point, the data
  whose three lists are built from a list of points, and the ten first points by falling
  value.\<close>

definition points :: "string \<Rightarrow> (string \<times> rat) list" where
  "points text =
     (if firsts [] (candidates text) \<noteq> [] then firsts [] (candidates text)
      else fallback_points text)"

definition label_of :: "string \<times> rat \<Rightarrow> string" where
  "label_of p = fst p @ '': '' @ fmt_2f (snd p)"

definition of_points :: "(string \<times> rat) list \<Rightarrow> data" where
  "of_points ps = \<lparr>categories = map fst ps, values' = map snd ps, labels = map label_of ps,
     chart_type = ''bar'', title = ''Real Estate Data Visualization''\<rparr>"

definition top10 :: "data \<Rightarrow> (string \<times> rat) list" where
  "top10 d = take 10 (sort_key (\<lambda>x. - snd x) (zip (categories d) (values' d)))"

definition ranked :: "(string \<times> rat) list \<Rightarrow> (string \<times> rat) list" where
  "ranked ps = take 10 (sort_key (\<lambda>x. - snd x) ps)"

text \<open>The characters that the cleaning of a label lets through.\<close>

definition label_char :: "char \<Rightarrow> bool" where
  "label_char x = (is_word x \<or> x = CHR '' '' \<or> x = CHR ''&'' \<or> x = CHR ''-'')"

text \<open>What a successful match says about the text consumed by one item.\<close>

fun item_ok :: "item \<Rightarrow> string \<Rightarrow> bool" where
  "item_ok (g, c, q) p =
     ((\<forall>x\<in>set p. cls_match c x)
      \<and> (q = One \<longrightarrow> length p = 1)
      \<and> (q = Plus \<or> q = LazyPlus \<longrightarrow> p \<noteq> []))"

section \<open>The loops in closed form\<close>

lemma float_py_error: "float_py s = Inl e \<Longrightarrow> e = ValueError"
  by (auto simp: float_py_def Let_def split: list.splits if_splits)

lemma try_match_candidate:
  "except_ValueError d (try_match d m) = Inr (case candidate m of None \<Rightarrow> d | Some p \<Rightarrow> accept d p)"
proof (cases "float_py (filter (\<lambda>c. c \<noteq> CHR '','') (snd m))")
  case (Inl e)
  then have "e = ValueError" by (rule float_py_error)
  with Inl show ?thesis
    by (simp add: try_match_def candidate_def except_ValueError_def)
next
  case (Inr v)
  then show ?thesis
    by (simp add: try_match_def candidate_def except_ValueError_def Let_def accept_def
        append_point_def)
qed

lemma for_each_Inr: "for_each (\<lambda>x s. Inr (f s x)) xs s = Inr (foldl f s xs)"
  by (induction xs arbitrary: s) simp_all

lemma map_filter_app: "List.map_filter f (xs @ ys) = List.map_filter f xs @ List.map_filter f ys"
  by (simp add: map_filter_def)

lemma foldl_candidate:
  "foldl (\<lambda>d m. case candidate m of None \<Rightarrow> d | Some p \<Rightarrow> accept d p) d ms
     = foldl accept d (List.map_filter candidate ms)"
  by (induction ms arbitrary: d) (simp_all add: map_filter_simps split: option.split)

lemma for_each_matches:
  "for_each (\<lambda>m d. except_ValueError d (try_match d m)) ms d
     = Inr (foldl accept d (List.map_filter candidate ms))"
  by (simp only: try_match_candidate for_each_Inr foldl_candidate)

lemma apply_pattern_eq:
  "apply_pattern text p d = Inr (foldl accept d (List.map_filter candidate (findall p text)))"
  by (simp only: apply_pattern_def for_each_matches)

lemma foldl_patterns:
  "foldl (\<lambda>d p. foldl accept d (List.map_filter candidate (F p))) d ps
     = foldl accept d (List.map_filter candidate (concat (map F ps)))"
  by (induction ps arbitrary: d) (simp_all add: map_filter_simps map_filter_app)

lemma for_each_patterns:
  "for_each (apply_pattern text) ps d
     = Inr (foldl accept d (List.map_filter candidate (concat (map (\<lambda>p. findall p text) ps))))"
proof -
  have "apply_pattern text
          = (\<lambda>p d. Inr ((\<lambda>d p. foldl accept d (List.map_filter candidate (findall p text))) d p))"
    by (intro ext) (simp only: apply_pattern_eq)
  then show ?thesis
    by (simp only: for_each_Inr foldl_patterns)
qed

lemma apply_patterns_eq: "apply_patterns text d = Inr (foldl accept d (candidates text))"
  by (simp add: apply_patterns_def candidates_def for_each_patterns)

lemma fallback_keyword_eq:
  "fallback_keyword text k d =
     Inr (case fallback_value text of
            None \<Rightarrow> d
          | Some v \<Rightarrow> if contains k (lower text) then append_point d (str_title k, v) else d)"
proof (cases "map fst (findall number_pattern text)")
  case Nil
  then show ?thesis by (simp add: fallback_keyword_def fallback_value_def)
next
  case (Cons n ns)
  show ?thesis
  proof (cases "float_py n")
    case (Inl e)
    then have "e = ValueError" by (rule float_py_error)
    with Inl Cons show ?thesis
      by (simp add: fallback_keyword_def fallback_value_def first_def except_ValueError_def)
  next
    case (Inr v)
    with Cons show ?thesis
      by (simp add: fallback_keyword_def fallback_value_def first_def except_ValueError_def
          append_point_def)
  qed
qed

lemma foldl_fallback:
  "foldl (\<lambda>d k. if P k then append_point d (g k) else d) d ks
     = foldl append_point d (map g (filter P ks))"
  by (induction ks arbitrary: d) simp_all

lemma for_each_fallback:
  "for_each (fallback_keyword text) ks d =
     Inr (case fallback_value text of
            None \<Rightarrow> d
          | Some v \<Rightarrow> foldl append_point d
                       (map (\<lambda>k. (str_title k, v)) (filter (\<lambda>k. contains k (lower text)) ks)))"
proof (cases "fallback_value text")
  case None
  then have "fallback_keyword text = (\<lambda>k d. Inr ((\<lambda>d k. d) d k))"
    by (intro ext) (simp add: fallback_keyword_eq)
  moreover have "foldl (\<lambda>d k. d) d ks = d" by (induction ks) simp_all
  ultimately show ?thesis using None by (simp only: for_each_Inr option.case)
next
  case (Some v)
  then have "fallback_keyword text = (\<lambda>k d. Inr ((\<lambda>d k. if contains k (lower text)
            then append_point d (str_title k, v) else d) d k))"
    by (intro ext) (simp add: fallback_keyword_eq)
  then show ?thesis using Some by (simp only: for_each_Inr foldl_fallback option.case)
qed

lemma finalize_eq:
  assumes "length (categories d) = length (values' d)"
  shows "finalize d = d\<lparr>categories := map fst (top10 d), values' := map snd (top10 d)\<rparr>"
proof (cases "values' d = []")
  case True
  with assms show ?thesis by (simp add: finalize_def top10_def)
next
  case False
  with assms show ?thesis
    by (simp add: finalize_def top10_def Let_def take_map)
qed

lemma foldl_append_point:
  "foldl append_point d ps =
     d\<lparr>categories := categories d @ map fst ps, values' := values' d @ map snd ps,
       labels := labels d @ map label_of ps\<rparr>"
  by (induction ps arbitrary: d) (simp_all add: append_point_def label_of_def)

lemma foldl_accept: "foldl accept d ps = foldl append_point d (firsts (categories d) ps)"
proof (induction ps arbitrary: d)
  case Nil
  show ?case by simp
next
  case (Cons p ps)
  show ?case
  proof (cases "fst p \<in> set (categories d)")
    case True
    then have "accept d p = d" by (simp add: accept_def)
    then show ?thesis using True by (simp add: Cons.IH)
  next
    case False
    then have "accept d p = append_point d p" by (simp add: accept_def)
    moreover have "categories (append_point d p) = categories d @ [fst p]"
      by (simp add: append_point_def)
    ultimately show ?thesis using False by (simp add: Cons.IH)
  qed
qed

lemma of_points_eq: "foldl append_point data0 ps = of_points ps"
  by (simp add: foldl_append_point of_points_def data0_def)

lemma collect_eq: "collect text = Inr (of_points (points text))"
proof -
  let ?d = "foldl accept data0 (candidates text)"
  have d: "?d = of_points (firsts [] (candidates text))"
    by (simp add: foldl_accept of_points_eq data0_def[THEN arg_cong, of categories] )
  show ?thesis
  proof (cases "firsts [] (candidates text) = []")
    case True
    with d have "?d = data0" by (simp add: of_points_def data0_def)
    then show ?thesis using True
      by (simp add: collect_def apply_patterns_eq fallback_def data0_def[THEN arg_cong, of values']
          for_each_fallback points_def fallback_points_def of_points_eq split: option.split)
        (simp add: of_points_def data0_def)
  next
    case False
    then have "values' ?d \<noteq> []" by (simp add: d of_points_def)
    then show ?thesis using False
      by (simp add: collect_def apply_patterns_eq fallback_def points_def d)
  qed
qed

lemma extract_eq:
  "extract_data_for_visualization text =
     Inr ((of_points (points text))\<lparr>categories := map fst (ranked (points text)),
                                    values' := map snd (ranked (points text))\<rparr>)"
proof -
  have "length (categories (of_points ps)) = length (values' (of_points ps))" for ps
    by (simp add: of_points_def)
  moreover have "top10 (of_points ps) = ranked ps" for ps
    by (simp add: top10_def ranked_def of_points_def zip_map_fst_snd)
  ultimately show ?thesis
    by (simp add: extract_data_for_visualization_def collect_eq finalize_eq)
qed

lemma firsts_subset: "set (firsts seen ps) \<subseteq> set ps"
  by (induction ps arbitrary: seen) auto

lemma firsts_fresh: "fst ` set (firsts seen ps) \<inter> set seen = {}"
proof (induction ps arbitrary: seen)
  case Nil
  show ?case by simp
next
  case (Cons p ps)
  from Cons.IH[of seen] Cons.IH[of "seen @ [fst p]"] show ?case by auto
qed

lemma distinct_firsts: "distinct (map fst (firsts seen ps))"
proof (induction ps arbitrary: seen)
  case Nil
  show ?case by simp
next
  case (Cons p ps)
  from firsts_fresh[of "seen @ [fst p]" ps] Cons.IH show ?case by auto
qed

lemma map_of_firsts:
  "map_of (firsts seen ps) k = (if k \<in> set seen then None else map_of ps k)"
proof (induction ps arbitrary: seen)
  case Nil
  show ?case by simp
next
  case (Cons p ps)
  show ?case by (cases p) (auto simp: Cons.IH)
qed

lemma firsts_nonempty: "ps \<noteq> [] \<Longrightarrow> firsts [] ps \<noteq> []"
  by (cases ps) simp_all

lemma set_ranked: "set (ranked ps) \<subseteq> set ps"
  using set_take_subset[of 10 "sort_key (\<lambda>x. - snd x) ps"] by (simp add: ranked_def)

lemma distinct_ranked: "distinct (map fst ps) \<Longrightarrow> distinct (map fst (ranked ps))"
proof -
  assume "distinct (map fst ps)"
  have "mset (map fst (sort_key (\<lambda>x. - snd x) ps)) = mset (map fst ps)"
    by simp
  then have "distinct (map fst (sort_key (\<lambda>x. - snd x) ps))"
    using \<open>distinct (map fst ps)\<close> by (metis mset_eq_imp_distinct_iff)
  then show ?thesis
    by (simp add: ranked_def take_map[symmetric] del: take_map)
qed

lemma titles:
  "map str_title real_estate_keywords =
     [''Real Estate'', ''Construction'', ''Housing'', ''Credit'', ''Facilities'',
      ''Instalment'', ''Private'', ''Model'', ''Total'', ''Residential'', ''Commercial'',
      ''Investment'', ''Development'', ''Market'', ''Price'', ''Value'']"
  by code_simp

lemma distinct_titles: "distinct (map str_title real_estate_keywords)"
  unfolding titles by simp

lemma distinct_points: "distinct (map fst (points text))"
proof (cases "firsts [] (candidates text) = []")
  case False
  then show ?thesis by (simp add: points_def distinct_firsts)
next
  case True
  have "distinct (map str_title (filter P real_estate_keywords))" for P
    using distinct_titles by (rule distinct_map_filter)
  then show ?thesis using True
    by (simp add: points_def fallback_points_def comp_def split: option.split)
qed

section \<open>What a match needs\<close>

lemma push_ok:
  assumes "list_all2 item_ok ((g, c, q) # its) ps" and "cls_match c x" and "q' \<noteq> One"
  shows "\<exists>p ps'. ps = p # ps' \<and> push x (ps, r) = ((x # p) # ps', r)
           \<and> list_all2 item_ok ((g, c, q') # its) ((x # p) # ps')"
proof -
  from assms(1) obtain p ps' where ps: "ps = p # ps'" and p: "item_ok (g, c, q) p"
    and rest: "list_all2 item_ok its ps'"
    by (auto simp: list_all2_Cons1)
  from p assms(2,3) have "item_ok (g, c, q') (x # p)" by auto
  with ps rest show ?thesis by simp
qed

lemma match_here_sound:
  "match_here its s = Some (ps, r) \<Longrightarrow> s = concat ps @ r \<and> list_all2 item_ok its ps"
proof (induction its s arbitrary: ps r rule: match_here.induct)
  case (1 s)
  then show ?case by simp
next
  case (2 g c its)
  then show ?case by simp
next
  case (3 g c its x xs)
  then show ?case by (auto split: if_splits)
next
  case (4 g c its)
  then show ?case by auto
next
  case (5 g c its x xs)
  then show ?case by (auto split: if_splits option.splits)
next
  case (6 g c its)
  then show ?case by auto
next
  case (7 g c its x xs)
  show ?case
  proof (cases "cls_match c x")
    case False
    with 7 show ?thesis by auto
  next
    case True
    show ?thesis
    proof (cases "match_here ((g, c, Star) # its) xs")
      case None
      with True 7 show ?thesis by auto
    next
      case (Some m)
      obtain ps0 r0 where m: "m = (ps0, r0)" by (cases m)
      from 7(1)[OF True] Some m have ih: "xs = concat ps0 @ r0"
        "list_all2 item_ok ((g, c, Star) # its) ps0" by auto
      from push_ok[OF ih(2) True, of Star r0] obtain p ps' where
        "ps0 = p # ps'" "push x (ps0, r0) = ((x # p) # ps', r0)"
        "list_all2 item_ok ((g, c, Star) # its) ((x # p) # ps')" by auto
      with 7(4) True Some m ih(1) show ?thesis by auto
    qed
  qed
next
  case (8 g c its)
  then show ?case by simp
next
  case (9 g c its x xs)
  show ?case
  proof (cases "cls_match c x")
    case False
    with 9 show ?thesis by auto
  next
    case True
    with 9(2) obtain ps0 r0 where m: "match_here ((g, c, Star) # its) xs = Some (ps0, r0)"
      and res: "(ps, r) = push x (ps0, r0)" by auto
    from 9(1)[OF True m] have ih: "xs = concat ps0 @ r0"
        "list_all2 item_ok ((g, c, Star) # its) ps0" by auto
    from push_ok[OF ih(2) True, of Plus r0] res ih(1) show ?thesis by auto
  qed
next
  case (10 g c its)
  then show ?case by simp
next
  case (11 g c its x xs)
  show ?case
  proof (cases "cls_match c x")
    case False
    with 11 show ?thesis by auto
  next
    case True
    with 11(2) obtain ps0 r0 where m: "match_here ((g, c, LazyStar) # its) xs = Some (ps0, r0)"
      and res: "(ps, r) = push x (ps0, r0)" by auto
    from 11(1)[OF True m] have ih: "xs = concat ps0 @ r0"
        "list_all2 item_ok ((g, c, LazyStar) # its) ps0" by auto
    from push_ok[OF ih(2) True, of LazyPlus r0] res ih(1) show ?thesis by auto
  qed
next
  case (12 g c its)
  then show ?case by auto
next
  case (13 g c its x xs)
  show ?case
  proof (cases "match_here its (x # xs)")
    case (Some m)
    obtain ps0 r0 where "m = (ps0, r0)" by (cases m)
    with Some "13.prems" have res: "ps = [] # ps0" "r = r0" by simp_all
    from "13.IH"(1)[of ps0 r0] Some \<open>m = (ps0, r0)\<close>
    have "x # xs = concat ps0 @ r0" "list_all2 item_ok its ps0" by simp_all
    with res show ?thesis by simp
  next
    case None
    show ?thesis
    proof (cases "cls_match c x")
      case False
      with None "13.prems" show ?thesis by simp
    next
      case True
      with None "13.prems" obtain ps0 r0 where
        m: "match_here ((g, c, LazyStar) # its) xs = Some (ps0, r0)"
        and res: "(ps, r) = push x (ps0, r0)" by auto
      from "13.IH"(2)[OF None True m] have ih: "xs = concat ps0 @ r0"
        "list_all2 item_ok ((g, c, LazyStar) # its) ps0" by auto
      from push_ok[OF ih(2) True, of LazyStar r0] res ih(1) show ?thesis by auto
    qed
  qed
qed

lemma split_at_item:
  assumes "list_all2 item_ok (pre @ mid @ post) ps"
  shows "\<exists>ps1 ps2 ps3. ps = ps1 @ ps2 @ ps3 \<and> list_all2 item_ok mid ps2"
proof -
  from assms obtain ps1 rest where "ps = ps1 @ rest" "list_all2 item_ok (mid @ post) rest"
    by (auto simp: list_all2_append1)
  then show ?thesis by (auto simp: list_all2_append1)
qed

lemma lit_parts: "list_all2 item_ok (lit w) ps \<Longrightarrow> concat ps = w"
proof (induction w arbitrary: ps)
  case Nil
  then show ?case by (simp add: lit_def)
next
  case (Cons a w)
  then obtain p ps' where ps: "ps = p # ps'" and p: "item_ok (0, Pos [C a], One) p"
    and rest: "list_all2 item_ok (lit w) ps'"
    by (auto simp: lit_def list_all2_Cons1)
  from p have "p = [a]" by (cases p) auto
  with ps Cons.IH[OF rest] show ?case by simp
qed

lemma starts_with_append: "starts_with w (w @ b)"
  by (induction w) simp_all

lemma contains_append: "contains w (a @ w @ b)"
proof (induction a)
  case Nil
  show ?case by (cases "w @ b") (use starts_with_append[of w b] in \<open>auto\<close>)
next
  case (Cons x a)
  then show ?case by simp
qed

lemma contains_drop: "contains w (drop n s) \<Longrightarrow> contains w s"
proof (induction s arbitrary: n)
  case Nil
  then show ?case by simp
next
  case (Cons x s)
  then show ?case by (cases n) auto
qed

lemma match_needs_lit:
  assumes "match_here (pre @ lit w @ post) s = Some (ps, r)"
  shows "contains w s"
proof -
  from match_here_sound[OF assms] have s: "s = concat ps @ r"
    and ok: "list_all2 item_ok (pre @ lit w @ post) ps" by auto
  from split_at_item[OF ok] obtain ps1 ps2 ps3 where
    "ps = ps1 @ ps2 @ ps3" "list_all2 item_ok (lit w) ps2" by auto
  with s lit_parts[of w ps2] have "s = concat ps1 @ w @ (concat ps3 @ r)" by simp
  then show ?thesis using contains_append[of w "concat ps1" "concat ps3 @ r"] by simp
qed

lemma match_needs_char:
  assumes "match_here (pre @ (g, c, q) # post) s = Some (ps, r)"
    and "q = One \<or> q = Plus \<or> q = LazyPlus"
  shows "\<exists>x\<in>set s. cls_match c x"
proof -
  from match_here_sound[OF assms(1)] have s: "s = concat ps @ r"
    and "list_all2 item_ok (pre @ (g, c, q) # post) ps" by auto
  then have ok: "list_all2 item_ok (pre @ [(g, c, q)] @ post) ps" by simp
  from split_at_item[OF ok] obtain ps1 ps2 ps3 where
    ps: "ps = ps1 @ ps2 @ ps3" and "list_all2 item_ok [(g, c, q)] ps2" by auto
  then obtain p where p: "ps2 = [p]" "item_ok (g, c, q) p"
    by (auto simp: list_all2_Cons1)
  with assms(2) obtain x where "x \<in> set p" "cls_match c x" by (cases p) auto
  with s ps p(1) show ?thesis by auto
qed

lemma findall_none:
  "(\<And>n. match_here its (drop n s) = None) \<Longrightarrow> findall its s = []"
proof (induction s)
  case Nil
  from Nil[of 0] show ?case by (simp add: findall.simps)
next
  case (Cons x s)
  have "match_here its (drop n s) = None" for n using Cons.prems[of "Suc n"] by simp
  then have "findall its s = []" by (rule Cons.IH)
  with Cons.prems[of 0] show ?case by (simp add: findall.simps[of its "x # s"])
qed

lemma findall_needs_lit:
  assumes "\<not> contains w s" and "its = pre @ lit w @ post"
  shows "findall its s = []"
proof (rule findall_none)
  fix n
  show "match_here its (drop n s) = None"
  proof (cases "match_here its (drop n s)")
    case None
    then show ?thesis .
  next
    case (Some m)
    obtain ps r where "m = (ps, r)" by (cases m)
    with Some assms(2) have "contains w (drop n s)" by (auto dest: match_needs_lit)
    with assms(1) show ?thesis by (auto dest: contains_drop)
  qed
qed

lemma findall_needs_char:
  assumes "\<not> list_ex (cls_match c) s" and "its = pre @ (g, c, q) # post"
    and "q = One \<or> q = Plus \<or> q = LazyPlus"
  shows "findall its s = []"
proof (rule findall_none)
  fix n
  show "match_here its (drop n s) = None"
  proof (cases "match_here its (drop n s)")
    case None
    then show ?thesis .
  next
    case (Some m)
    obtain ps r where "m = (ps, r)" by (cases m)
    with Some assms(2,3) have "\<exists>x\<in>set (drop n s). cls_match c x"
      by (auto dest: match_needs_char)
    then have "\<exists>x\<in>set s. cls_match c x" by (auto dest: in_set_dropD)
    with assms(1) show ?thesis by (simp add: list_ex_iff)
  qed
qed

lemma pattern_1_needs:
  "\<not> list_ex (cls_match (Pos [C CHR '':'', C CHR ''=''])) s \<Longrightarrow> findall pattern_1 s = []"
  by (rule findall_needs_char[where pre = "[(1, Neg [C CHR '':'', C CHR ''='', C CHR 0x0A], Plus)]"
        and post = "ws0 @ number2" and q = One and g = 0])
     (simp_all add: pattern_1_def)

lemma pattern_2_needs: "\<not> contains ''='' s \<Longrightarrow> findall pattern_2 s = []"
  by (rule findall_needs_lit[where pre = "[(1, Neg [C CHR ''='', C CHR 0x0A], Plus)]"
        and post = "ws0 @ number2"])
     (simp_all add: pattern_2_def)

lemma pattern_3_needs: "\<not> contains '','' s \<Longrightarrow> findall pattern_3 s = []"
  by (rule findall_needs_lit[where pre = "[(1, Neg [C CHR '','', C CHR 0x0A], Plus)]"
        and post = "ws0 @ number2"])
     (simp_all add: pattern_3_def)

lemma pattern_4_needs: "\<not> contains ''Credit'' s \<Longrightarrow> findall pattern_4 s = []"
  by (rule findall_needs_lit[where pre = "label1 @ ws0"
        and post = "ws0 @ lit ''directed:'' @ ws0 @ lit ''KD'' @ ws0 @ number2 @ ws0 @ lit ''billion''"])
     (simp_all add: pattern_4_def)

lemma pattern_5_needs: "\<not> contains ''Credit'' s \<Longrightarrow> findall pattern_5 s = []"
  by (rule findall_needs_lit[where pre = "label1 @ ws0"
        and post = "ws0 @ lit ''directed:'' @ ws0 @ number2"])
     (simp_all add: pattern_5_def)

lemma pattern_6_needs: "\<not> contains ''Share:'' s \<Longrightarrow> findall pattern_6 s = []"
  by (rule findall_needs_lit[where pre = "label1 @ ws0" and post = "ws0 @ number2 @ lit ''%''"])
     (simp_all add: pattern_6_def)

lemma pattern_7_needs: "\<not> contains ''Total:'' s \<Longrightarrow> findall pattern_7 s = []"
  by (rule findall_needs_lit[where pre = "label1 @ ws0"
        and post = "ws0 @ lit ''KD'' @ ws0 @ number2 @ ws0 @ lit ''billion''"])
     (simp_all add: pattern_7_def)

lemma pattern_8_needs: "\<not> contains ''Total:'' s \<Longrightarrow> findall pattern_8 s = []"
  by (rule findall_needs_lit[where pre = "label1 @ ws0"
        and post = "ws0 @ number2 @ ws0 @ lit ''billion''"])
     (simp_all add: pattern_8_def)

lemma pattern_9_needs: "\<not> contains ''KD'' s \<Longrightarrow> findall pattern_9 s = []"
  by (rule findall_needs_lit[where pre = "label1 @ ws0"
        and post = "ws0 @ number2 @ ws0 @ lit ''billion''"])
     (simp_all add: pattern_9_def)

lemma pattern_10_needs: "\<not> contains ''billion'' s \<Longrightarrow> findall pattern_10 s = []"
  by (rule findall_needs_lit[where pre = "label1 @ ws0 @ number2 @ ws0" and post = "[]"])
     (simp_all add: pattern_10_def)

lemma pattern_11_needs: "\<not> contains ''million'' s \<Longrightarrow> findall pattern_11 s = []"
  by (rule findall_needs_lit[where pre = "label1 @ ws0 @ number2 @ ws0" and post = "[]"])
     (simp_all add: pattern_11_def)

lemma pattern_12_needs: "\<not> contains ''thousand'' s \<Longrightarrow> findall pattern_12 s = []"
  by (rule findall_needs_lit[where pre = "label1 @ ws0 @ number2 @ ws0" and post = "[]"])
     (simp_all add: pattern_12_def)

lemma pattern_13_needs: "\<not> contains ''%'' s \<Longrightarrow> findall pattern_13 s = []"
  by (rule findall_needs_lit[where pre = "label1 @ ws0 @ number2" and post = "[]"])
     (simp_all add: pattern_13_def)

lemma pattern_14_needs: "\<not> contains ''units'' s \<Longrightarrow> findall pattern_14 s = []"
  by (rule findall_needs_lit[where pre = "label1 @ ws0 @ number2 @ ws0" and post = "[]"])
     (simp_all add: pattern_14_def)

lemma pattern_15_needs: "\<not> contains ''properties'' s \<Longrightarrow> findall pattern_15 s = []"
  by (rule findall_needs_lit[where pre = "label1 @ ws0 @ number2 @ ws0" and post = "[]"])
     (simp_all add: pattern_15_def)

lemmas pattern_needs = pattern_1_needs pattern_2_needs pattern_3_needs pattern_4_needs
  pattern_5_needs pattern_6_needs pattern_7_needs pattern_8_needs pattern_9_needs
  pattern_10_needs pattern_11_needs pattern_12_needs pattern_13_needs pattern_14_needs
  pattern_15_needs

lemmas pattern_defs = pattern_1_def pattern_2_def pattern_3_def pattern_4_def pattern_5_def
  pattern_6_def pattern_7_def pattern_8_def pattern_9_def pattern_10_def pattern_11_def
  pattern_12_def pattern_13_def pattern_14_def pattern_15_def label1_def ws0_def number2_def
  lit_def

section \<open>Facts about the characters of ASCII\<close>

text \<open>The classes and the lower case of the tab, the line feed and the printable characters
  of ASCII, as rewrite rules for the evaluation of the functions on given texts.\<close>

lemmas char_tables = digits_def spaces_def ascii_upper_def ascii_lower_def latin1_upper_def
  latin1_lower_def latin1_other_def

lemma digit_chars: "list_all is_digit digits"
  by (simp add: is_digit_def list_all_iff)

lemma other_than_digit_chars:
  "list_all (\<lambda>c. \<not> is_digit c)
     ([CHR 0x09] @ [CHR 0x0A] @ '' !'' @ [CHR 0x22] @ ''#$%&'' @ [CHR 0x27] @ ''()*+,-./:;<=>?@ABCDEFGHIJKLMNOPQRSTUVWXYZ['' @ [CHR 0x5C] @ '']^_'' @ [CHR 0x60] @ ''abcdefghijklmnopqrstuvwxyz{|}~'')"
  by (simp add: is_digit_def digits_def)

lemma space_chars: "list_all is_space spaces"
  by (simp add: is_space_def list_all_iff)

lemma other_than_space_chars:
  "list_all (\<lambda>c. \<not> is_space c)
     (''!'' @ [CHR 0x22] @ ''#$%&'' @ [CHR 0x27] @ ''()*+,-./0123456789:;<=>?@ABCDEFGHIJKLMNOPQRSTUVWXYZ['' @ [CHR 0x5C] @ '']^_'' @ [CHR 0x60] @ ''abcdefghijklmnopqrstuvwxyz{|}~'')"
  by (simp add: is_space_def spaces_def)

lemma word_chars: "list_all is_word (digits @ ascii_upper @ ascii_lower @ ''_'')"
  by (auto simp: is_word_def list_all_iff)

lemma other_than_word_chars:
  "list_all (\<lambda>c. \<not> is_word c)
     ([CHR 0x09] @ [CHR 0x0A] @ '' !'' @ [CHR 0x22] @ ''#$%&'' @ [CHR 0x27] @ ''()*+,-./:;<=>?@['' @ [CHR 0x5C] @ '']^'' @ [CHR 0x60] @ ''{|}~'')"
  by (simp add: is_word_def char_tables)

lemma translate_keys:
  assumes "distinct xs" and "length xs = length ys"
  shows "map (\<lambda>c. case map_of (zip xs ys) c of Some l \<Rightarrow> l | None \<Rightarrow> c) xs = ys"
proof (rule nth_equalityI)
  show "length (map (\<lambda>c. case map_of (zip xs ys) c of Some l \<Rightarrow> l | None \<Rightarrow> c) xs) = length ys"
    using assms(2) by simp
next
  fix i
  assume "i < length (map (\<lambda>c. case map_of (zip xs ys) c of Some l \<Rightarrow> l | None \<Rightarrow> c) xs)"
  then have i: "i < length ys" using assms(2) by simp
  with assms have "map_of (zip xs ys) (xs ! i) = Some (ys ! i)"
    by (simp add: map_of_zip_nth)
  with i assms(2) show "map (\<lambda>c. case map_of (zip xs ys) c of Some l \<Rightarrow> l | None \<Rightarrow> c) xs ! i = ys ! i"
    by simp
qed

lemma distinct_upper: "distinct (ascii_upper @ latin1_upper)"
  by (simp add: char_tables)

lemma length_upper: "length (ascii_upper @ latin1_upper) = length (ascii_lower @ latin1_lower)"
  by (simp add: char_tables)

lemma lower_char_upper: "map lower_char (ascii_upper @ latin1_upper) = ascii_lower @ latin1_lower"
proof -
  have eq: "lower_char = (\<lambda>c. case map_of (zip (ascii_upper @ latin1_upper)
          (ascii_lower @ latin1_lower)) c of Some l \<Rightarrow> l | None \<Rightarrow> c)"
    by (intro ext) (simp add: lower_char_def)
  show ?thesis unfolding eq by (rule translate_keys[OF distinct_upper length_upper])
qed

lemma lower_char_other: "c \<notin> set (ascii_upper @ latin1_upper) \<Longrightarrow> lower_char c = c"
proof -
  assume "c \<notin> set (ascii_upper @ latin1_upper)"
  with map_of_zip_is_None[OF length_upper, of c]
  have "map_of (zip (ascii_upper @ latin1_upper) (ascii_lower @ latin1_lower)) c = None"
    by blast
  then show ?thesis by (simp add: lower_char_def)
qed

lemma other_than_upper_chars:
  "list_all (\<lambda>c. lower_char c = c)
     ([CHR 0x09] @ [CHR 0x0A] @ '' !'' @ [CHR 0x22] @ ''#$%&'' @ [CHR 0x27] @ ''()*+,-./0123456789:;<=>?@['' @ [CHR 0x5C] @ '']^_'' @ [CHR 0x60] @ ''abcdefghijklmnopqrstuvwxyz{|}~'')"
  by (simp add: lower_char_other char_tables)

lemmas char_facts =
  digit_chars[unfolded char_tables, simplified] other_than_digit_chars[simplified]
  space_chars[unfolded char_tables, simplified] other_than_space_chars[simplified]
  word_chars[unfolded char_tables, simplified] other_than_word_chars[simplified]
  lower_char_upper[unfolded char_tables, simplified] other_than_upper_chars[simplified]

section \<open>Order, labels and characters of the result\<close>

lemma sort_desc_sorted: "sorted_wrt (\<lambda>a b. snd b \<le> snd a) (sort_key (\<lambda>x. - snd x) (ps :: (string \<times> rat) list))"
proof -
  have "sorted (map (\<lambda>x. - snd x) (sort_key (\<lambda>x. - snd x) ps))" by (rule sorted_sort_key)
  then show ?thesis by (simp add: sorted_map)
qed

lemma ranked_sorted: "sorted_wrt (\<ge>) (map snd (ranked ps))"
proof -
  from sort_desc_sorted[of ps]
  have "sorted_wrt (\<lambda>a b. snd b \<le> snd a) (take 10 (sort_key (\<lambda>x. - snd x) ps))"
    by (rule sorted_wrt_take)
  then show ?thesis by (simp add: ranked_def sorted_wrt_map)
qed

lemma length_ranked: "length (ranked ps) = min 10 (length ps)"
  by (simp add: ranked_def min.commute)

lemma mset_ranked_rest:
  "mset ps - mset (ranked ps) = mset (drop 10 (sort_key (\<lambda>x. - snd x) ps))"
proof -
  let ?l = "sort_key (\<lambda>x. - snd x) ps"
  have "mset ps = mset (take 10 ?l) + mset (drop 10 ?l)"
    by (metis append_take_drop_id mset_append mset_sort)
  then show ?thesis by (simp add: ranked_def)
qed

lemma mset_ranked_sub: "mset (ranked ps) \<subseteq># mset ps"
proof -
  let ?l = "sort_key (\<lambda>x. - snd x) ps"
  have "mset ps = mset (take 10 ?l) + mset (drop 10 ?l)"
    by (metis append_take_drop_id mset_append mset_sort)
  then show ?thesis by (simp add: ranked_def)
qed

lemma ranked_above_rest:
  assumes "p \<in> set (ranked ps)" and "q \<in># mset ps - mset (ranked ps)"
  shows "snd q \<le> snd p"
proof -
  let ?l = "sort_key (\<lambda>x. - snd x) ps"
  from sort_desc_sorted[of ps]
  have "sorted_wrt (\<lambda>a b. snd b \<le> snd a) (take 10 ?l @ drop 10 ?l)" by simp
  then have "\<forall>a\<in>set (take 10 ?l). \<forall>b\<in>set (drop 10 ?l). snd b \<le> snd a"
    unfolding sorted_wrt_append by blast
  moreover from assms(1) have "p \<in> set (take 10 ?l)" by (simp add: ranked_def)
  moreover from assms(2) have "q \<in> set (drop 10 ?l)" by (simp add: mset_ranked_rest)
  ultimately show ?thesis by blast
qed

lemma candidates_label:
  assumes "(c, v) \<in> set (candidates text)"
  shows "\<exists>s. c = remove_special (strip (collapse_ws s))"
proof -
  from assms obtain m where "candidate m = Some (c, v)"
    by (auto simp: candidates_def map_filter_def)
  then show ?thesis
    by (auto simp: candidate_def Let_def split: sum.splits if_splits)
qed

lemma collapse_ws_chars: "x \<in> set (collapse_ws s) \<Longrightarrow> \<not> is_space x \<or> x = CHR '' ''"
proof (induction s rule: collapse_ws.induct)
  case 1
  then show ?case by simp
next
  case (2 y ys)
  then show ?case by (auto split: if_splits)
qed

lemma strip_subset: "set (strip s) \<subseteq> set s"
  by (auto simp: strip_def dest!: set_dropWhileD)

lemma remove_special_chars:
  assumes "x \<in> set (remove_special (strip (collapse_ws s)))"
  shows "label_char x"
proof -
  from assms have x: "x \<in> set (strip (collapse_ws s))"
    and k: "is_word x \<or> is_space x \<or> x = CHR ''-'' \<or> x = CHR ''&''"
    by (auto simp: remove_special_def)
  from x strip_subset have "x \<in> set (collapse_ws s)" by blast
  then have "\<not> is_space x \<or> x = CHR '' ''" by (rule collapse_ws_chars)
  with k show ?thesis by (auto simp: label_char_def)
qed

lemma title_chars: "\<forall>c\<in>set (map str_title real_estate_keywords). \<forall>x\<in>set c. label_char x"
proof -
  have "\<forall>c\<in>set (map str_title real_estate_keywords). \<forall>x\<in>set c.
          x \<in> set ascii_upper \<or> x \<in> set ascii_lower \<or> x = CHR '' ''"
    unfolding titles by (simp add: ascii_upper_def ascii_lower_def)
  then show ?thesis by (auto simp: label_char_def is_word_def)
qed

lemma points_label_chars:
  assumes "(c, v) \<in> set (points text)" and "x \<in> set c"
  shows "label_char x"
proof (cases "firsts [] (candidates text) = []")
  case False
  with assms(1) firsts_subset have "(c, v) \<in> set (candidates text)"
    by (auto simp: points_def)
  with candidates_label assms(2) remove_special_chars show ?thesis by blast
next
  case True
  with assms(1) have "c \<in> set (map str_title real_estate_keywords)"
    by (auto simp: points_def fallback_points_def split: option.splits)
  with title_chars assms(2) show ?thesis by blast
qed

section \<open>The texts of the scenarios\<close>

lemma matches_ahmadi:
  "map (\<lambda>p. findall p ''Ahmadi: 1250, Hawally: 980, Capital: 2100'') patterns =
     [[(''Ahmadi'', ''1250,''), ('' Hawally'', ''980,''), ('' Capital'', ''2100'')],
      [], [], [], [], [], [], [], [], [], [], [], [], [], []]"
  apply (simp add: patterns_def pattern_needs)
  apply (simp add: pattern_defs char_facts findall.simps)
  done

lemmas candidate_defs = candidate_def float_py_def nat_of_digits_def digit_val_def digits_def
  strip_def remove_special_def lower_def skip_words_def Let_def

lemma candidates_ahmadi:
  "candidates ''Ahmadi: 1250, Hawally: 980, Capital: 2100'' =
     [(''Ahmadi'', 1250), (''Hawally'', 980), (''Capital'', 2100)]"
  unfolding candidates_def matches_ahmadi
  by (simp add: map_filter_simps candidate_defs char_facts)

section \<open>The claims\<close>

text \<open>
  C10. For every text the extraction returns, and the result has the chart type \<open>bar\<close> and
  the title \<open>Real Estate Data Visualization\<close>. Neither the loop over the patterns nor the
  fallback nor the last step changes these two fields, whatever data they start from.
\<close>

theorem C10_chart_type_and_title_fixed:
  "(\<exists>d'. apply_patterns text d = Inr d' \<and> chart_type d' = chart_type d \<and> title d' = title d)
   \<and> (\<exists>d'. fallback text d = Inr d' \<and> chart_type d' = chart_type d \<and> title d' = title d)
   \<and> chart_type (finalize d) = chart_type d \<and> title (finalize d) = title d
   \<and> (\<exists>r. extract_data_for_visualization text = Inr r \<and> chart_type r = ''bar''
          \<and> title r = ''Real Estate Data Visualization'')"
proof -
  have 1: "\<exists>d'. apply_patterns text d = Inr d' \<and> chart_type d' = chart_type d \<and> title d' = title d"
    by (simp add: apply_patterns_eq foldl_accept foldl_append_point)
  have 2: "\<exists>d'. fallback text d = Inr d' \<and> chart_type d' = chart_type d \<and> title d' = title d"
    by (simp add: fallback_def for_each_fallback foldl_append_point split: option.split)
  have 3: "chart_type (finalize d) = chart_type d \<and> title (finalize d) = title d"
    by (simp add: finalize_def Let_def)
  have 4: "\<exists>r. extract_data_for_visualization text = Inr r \<and> chart_type r = ''bar''
          \<and> title r = ''Real Estate Data Visualization''"
    by (simp add: extract_eq of_points_def)
  from 1 2 3 4 show ?thesis by blast
qed

text \<open>
  C4. If any data points were collected, the values of the result are sorted in falling
  order and there are at most ten categories; when more than ten points were collected,
  exactly ten are kept, they are among the collected pairs, and no dropped pair has a
  greater value than a kept one.
\<close>

theorem C4_sorted_top_ten:
  "\<exists>d r. collect text = Inr d \<and> extract_data_for_visualization text = Inr r \<and>
     (values' d \<noteq> [] \<longrightarrow>
        sorted_wrt (\<ge>) (values' r) \<and> length (categories r) \<le> 10 \<and>
        (10 < length (values' d) \<longrightarrow>
           length (categories r) = 10 \<and> length (values' r) = 10 \<and>
           mset (zip (categories r) (values' r)) \<subseteq># mset (zip (categories d) (values' d)) \<and>
           (\<forall>p \<in> set (zip (categories r) (values' r)).
              \<forall>q \<in># mset (zip (categories d) (values' d)) - mset (zip (categories r) (values' r)).
                snd q \<le> snd p)))"
proof -
  let ?ps = "points text"
  let ?d = "of_points ?ps"
  let ?r = "?d\<lparr>categories := map fst (ranked ?ps), values' := map snd (ranked ?ps)\<rparr>"
  have zd: "zip (categories ?d) (values' ?d) = ?ps"
    by (simp add: of_points_def zip_map_fst_snd)
  have zr: "zip (categories ?r) (values' ?r) = ranked ?ps"
    by (simp add: zip_map_fst_snd)
  have "sorted_wrt (\<ge>) (values' ?r)" by (simp add: ranked_sorted)
  moreover have "length (categories ?r) \<le> 10" by (simp add: length_ranked)
  moreover have "10 < length (values' ?d) \<longrightarrow> length (categories ?r) = 10 \<and> length (values' ?r) = 10"
    by (simp add: length_ranked of_points_def)
  moreover have "mset (zip (categories ?r) (values' ?r)) \<subseteq># mset (zip (categories ?d) (values' ?d))"
    unfolding zd zr by (rule mset_ranked_sub)
  moreover have "\<forall>p \<in> set (zip (categories ?r) (values' ?r)).
              \<forall>q \<in># mset (zip (categories ?d) (values' ?d)) - mset (zip (categories ?r) (values' ?r)).
                snd q \<le> snd p"
    unfolding zd zr using ranked_above_rest by blast
  ultimately show ?thesis
    using collect_eq[of "text"] extract_eq[of "text"] by blast
qed

text \<open>
  C9, as amended. Every character of every category of the result is a word character
  of the regular expression class (a letter, a digit or the underscore), a space, an
  ampersand or a hyphen.
\<close>

theorem C9_label_characters:
  "\<exists>r. extract_data_for_visualization text = Inr r \<and>
     (\<forall>c\<in>set (categories r). \<forall>x\<in>set c.
        is_word x \<or> x = CHR '' '' \<or> x = CHR ''&'' \<or> x = CHR ''-'')"
proof -
  have "\<forall>c\<in>set (map fst (ranked (points text))). \<forall>x\<in>set c. label_char x"
    using set_ranked[of "points text"] points_label_chars[of _ _ "text"] by force
  then show ?thesis by (simp add: extract_eq label_char_def)
qed

end
